theory Spec2Isabelle
  imports Main
begin

section \<open>Result data models\<close>

text \<open>
  The notebook \<^verbatim>\<open>01_naive_agent.ipynb\<close> declares two result classes and their union:
  \<^verbatim>\<open>
  class PathFoundResult(BaseModel):
      pages_by_title: list[str]
  class NoPathFoundResult(BaseModel):
      pass
  ResultType = Union[PathFoundResult, NoPathFoundResult]
  \<close>
\<close>

datatype ResultType = PathFoundResult (pages_by_title: "string list") | NoPathFoundResult

section \<open>The console and the encyclopedia client\<close>

text \<open>
  The notebook imports \<^verbatim>\<open>from rich import print\<close>, so the \<^verbatim>\<open>print\<close> of the lookup
  is rich's: it reads its argument as console markup and raises
  \<^verbatim>\<open>rich.errors.MarkupError\<close> where the markup is ill-formed, for instance at a closing
  tag that matches no open tag. The console is a parameter of the model: for a text it
  gives the text of the exception that printing it raises, if it raises one.
\<close>

type_synonym console = "string \<Rightarrow> string option"

text \<open>
  \<^verbatim>\<open>wikipedia.WikipediaPage(page_name, redirect=True).links\<close> is the external
  capability. It is a parameter of the model as well: for a title it either yields the
  list of linked titles, or raises \<^verbatim>\<open>wikipedia.exceptions.PageError\<close> (carrying the
  text \<^verbatim>\<open>str(e)\<close>), or raises some other exception (a disambiguation page, a
  network failure), again carrying its text.
\<close>

datatype page_outcome = Links "string list" | PageError string | OtherError string

type_synonym wikipedia = "string \<Rightarrow> page_outcome"

text \<open>
  What a call of the notebook's functions can raise: \<^verbatim>\<open>ModelRetry(msg)\<close>, the
  retryable rejection handed back to the agent, or an exception nobody catches.
\<close>

datatype exn = ModelRetry string | Uncaught string

section \<open>The cached link lookup\<close>

text \<open>
  \<^verbatim>\<open>
  @WikiracingAgent.tool_plain
  @cache
  def get_outbound_links(page_name: str) -> list[str]:
      print(f'Getting outbound links for: "{page_name}"')
      try:
          page = wikipedia.WikipediaPage(page_name, redirect=True)
          return page.links
      # Surface any exception text to the LLM for reflection
      except wikipedia.exceptions.PageError as e:
          raise ModelRetry(str(e))
  \<close>
  \<^verbatim>\<open>functools.cache\<close> keeps a dictionary from the argument to the value returned;
  a call that raises stores nothing. The state of the process is that dictionary together
  with the log of titles for which the external client was asked. The body first prints
  the line \<open>banner page_name\<close>, outside the \<^verbatim>\<open>try\<close>: an exception of the print leaves
  the function before the client is asked. What the print writes to the terminal is not
  kept in the state.
\<close>

record process =
  cache :: "string \<rightharpoonup> string list"
  lookups :: "string list"

definition fresh :: process where
  "fresh = \<lparr>cache = Map.empty, lookups = []\<rparr>"

definition banner :: "string \<Rightarrow> string" where
  "banner page_name =
     ''Getting outbound links for: '' @ [CHR 0x22] @ page_name @ [CHR 0x22]"

definition get_outbound_links ::
  "console \<Rightarrow> wikipedia \<Rightarrow> string \<Rightarrow> process \<Rightarrow> (exn + string list) \<times> process" where
  "get_outbound_links out wiki page_name st =
     (case cache st page_name of
        Some ls \<Rightarrow> (Inr ls, st)
      | None \<Rightarrow>
          (case out (banner page_name) of
             Some msg \<Rightarrow> (Inl (Uncaught msg), st)
           | None \<Rightarrow>
               (let st1 = st\<lparr>lookups := lookups st @ [page_name]\<rparr> in
                case wiki page_name of
                  Links ls \<Rightarrow> (Inr ls, st1\<lparr>cache := (cache st1)(page_name \<mapsto> ls)\<rparr>)
                | PageError msg \<Rightarrow> (Inl (ModelRetry msg), st1)
                | OtherError msg \<Rightarrow> (Inl (Uncaught msg), st1))))"

section \<open>The directed graph\<close>

text \<open>
  \<^verbatim>\<open>networkx.DiGraph\<close>: a set of nodes and, for every node, the set of its successors.
  \<^verbatim>\<open>g.add_edge(u, v)\<close> makes both ends nodes and records \<open>v\<close> as a successor of
  \<open>u\<close>. \<^verbatim>\<open>n in G\<close> asks for a node, \<^verbatim>\<open>v in G[u]\<close> for an edge.
\<close>

record digraph =
  nodes :: "string set"
  adj :: "string \<Rightarrow> string set"

definition DiGraph :: digraph where
  "DiGraph = \<lparr>nodes = {}, adj = (\<lambda>_. {})\<rparr>"

definition add_edge :: "digraph \<Rightarrow> string \<Rightarrow> string \<Rightarrow> digraph" where
  "add_edge g u v =
     g\<lparr>nodes := insert u (insert v (nodes g)), adj := (adj g)(u := insert v (adj g u))\<rparr>"

text \<open>
  \<^verbatim>\<open>networkx.is_simple_path(G, nodes)\<close>, the library routine the validator calls:
  \<^verbatim>\<open>
  if len(nodes) == 0:
      return False
  if len(nodes) == 1:
      return nodes[0] in G
  if not all(n in G for n in nodes):
      return False
  if len(set(nodes)) != len(nodes):
      return False
  return all(v in G[u] for u, v in pairwise(nodes))
  \<close>
\<close>

definition pairwise_list :: "'a list \<Rightarrow> ('a \<times> 'a) list" where
  "pairwise_list xs = zip xs (tl xs)"

definition is_simple_path :: "digraph \<Rightarrow> string list \<Rightarrow> bool" where
  "is_simple_path G ns =
     (if length ns = 0 then False
      else if length ns = 1 then hd ns \<in> nodes G
      else if \<not> list_all (\<lambda>n. n \<in> nodes G) ns then False
      else if length (remdups ns) \<noteq> length ns then False
      else list_all (\<lambda>(u, v). v \<in> adj G u) (pairwise_list ns))"

section \<open>The validator\<close>

text \<open>
  \<^verbatim>\<open>
  @WikiracingAgent.result_validator
  def validate_path(data: ResultType) -> ResultType:
      if isinstance(data, PathFoundResult):
          g = DiGraph()
          for current_page_title in data.pages_by_title:
              for linked_title in get_outbound_links(current_page_title):
                  g.add_edge(current_page_title, linked_title)
          if not is_simple_path(g, data.pages_by_title):
              raise ModelRetry("Path is not valid")
      return data
  \<close>
  \<open>add_links\<close> is the inner loop, \<open>build_graph\<close> the outer one; an exception raised by a
  lookup leaves both loops and the validator.
\<close>

definition add_links :: "string \<Rightarrow> string list \<Rightarrow> digraph \<Rightarrow> digraph" where
  "add_links current_page_title ls g =
     fold (\<lambda>linked_title g. add_edge g current_page_title linked_title) ls g"

fun build_graph ::
  "console \<Rightarrow> wikipedia \<Rightarrow> string list \<Rightarrow> digraph \<Rightarrow> process \<Rightarrow>
     (exn + digraph) \<times> process" where
  "build_graph out wiki [] g st = (Inr g, st)"
| "build_graph out wiki (current_page_title # rest) g st =
     (case get_outbound_links out wiki current_page_title st of
        (Inl e, st1) \<Rightarrow> (Inl e, st1)
      | (Inr ls, st1) \<Rightarrow> build_graph out wiki rest (add_links current_page_title ls g) st1)"

definition validate_path ::
  "console \<Rightarrow> wikipedia \<Rightarrow> ResultType \<Rightarrow> process \<Rightarrow> (exn + ResultType) \<times> process" where
  "validate_path out wiki data st =
     (case data of
        PathFoundResult ps \<Rightarrow>
          (case build_graph out wiki ps DiGraph st of
             (Inl e, st1) \<Rightarrow> (Inl e, st1)
           | (Inr g, st1) \<Rightarrow>
               if \<not> is_simple_path g ps then (Inl (ModelRetry ''Path is not valid''), st1)
               else (Inr data, st1))
      | NoPathFoundResult \<Rightarrow> (Inr data, st))"

text \<open>
  The validations of one process, one after the other: the cache and the log persist,
  whatever each validation returned or raised.
\<close>

definition run_validations ::
  "console \<Rightarrow> wikipedia \<Rightarrow> ResultType list \<Rightarrow> process \<Rightarrow> process" where
  "run_validations out wiki ds st = fold (\<lambda>d s. snd (validate_path out wiki d s)) ds st"

section \<open>Auxiliary notions\<close>

text \<open>
  \<open>body_outcome\<close> is what running the body of the lookup for a title amounts to: the
  exception of the print when it raises, what the external client answers otherwise.
  \<open>lookup_outcome\<close> is what a lookup yields in a given process state: the cached links
  when there are any, the outcome of the body otherwise. A cache is sound when it holds
  only links the body gives; the cache of a process that started fresh is.
\<close>

definition body_outcome :: "console \<Rightarrow> wikipedia \<Rightarrow> string \<Rightarrow> page_outcome" where
  "body_outcome out wiki t =
     (case out (banner t) of Some msg \<Rightarrow> OtherError msg | None \<Rightarrow> wiki t)"

definition lookup_outcome :: "console \<Rightarrow> wikipedia \<Rightarrow> process \<Rightarrow> string \<Rightarrow> page_outcome" where
  "lookup_outcome out wiki st t =
     (case cache st t of Some ls \<Rightarrow> Links ls | None \<Rightarrow> body_outcome out wiki t)"

definition cache_sound :: "console \<Rightarrow> wikipedia \<Rightarrow> process \<Rightarrow> bool" where
  "cache_sound out wiki st =
     (\<forall>t ls. cache st t = Some ls \<longrightarrow> body_outcome out wiki t = Links ls)"

text \<open>
  The outcome of the outer loop, described without the state: the exception of the first
  title whose lookup raises, or else the graph holding the links of every title.
\<close>

definition links_of :: "page_outcome \<Rightarrow> string list" where
  "links_of r = (case r of Links ls \<Rightarrow> ls | PageError _ \<Rightarrow> [] | OtherError _ \<Rightarrow> [])"

fun first_failure :: "(string \<Rightarrow> page_outcome) \<Rightarrow> string list \<Rightarrow> exn option" where
  "first_failure f [] = None"
| "first_failure f (p # ps) =
     (case f p of
        Links _ \<Rightarrow> first_failure f ps
      | PageError msg \<Rightarrow> Some (ModelRetry msg)
      | OtherError msg \<Rightarrow> Some (Uncaught msg))"

definition graph_of :: "(string \<Rightarrow> page_outcome) \<Rightarrow> string list \<Rightarrow> digraph \<Rightarrow> digraph" where
  "graph_of f ps g = fold (\<lambda>p g. add_links p (links_of (f p)) g) ps g"

text \<open>
  The invariant of the log: a title whose body yields links has been asked for once if it
  is cached and never if it is not, and a title whose print raises has never been asked
  for.
\<close>

definition logged_once :: "console \<Rightarrow> wikipedia \<Rightarrow> process \<Rightarrow> bool" where
  "logged_once out wiki st =
     ((\<forall>t ls. body_outcome out wiki t = Links ls \<longrightarrow>
         count_list (lookups st) t = (if cache st t = None then 0 else 1)) \<and>
      (\<forall>t msg. out (banner t) = Some msg \<longrightarrow> count_list (lookups st) t = 0))"

text \<open>
  A small encyclopedia for concrete runs: the pages of the notebook's race, two pages
  \<open>A\<close> and \<open>B\<close> linking to each other, a page without links, a disambiguation page on
  which the client raises an exception other than \<open>PageError\<close>, and no other page. The
  console of the concrete runs raises for the banner of the title \<open>[/b]\<close>, a closing tag
  without an open one, and prints every other banner.
\<close>

definition example_wiki :: wikipedia where
  "example_wiki t =
     (if t = ''Lindsay Lohan'' then Links [''Donald Trump'']
      else if t = ''Donald Trump'' then Links [''Barack Obama'']
      else if t = ''Barack Obama'' then Links [''Donald Trump'']
      else if t = ''A'' then Links [''B'', ''Red Link'']
      else if t = ''B'' then Links [''A'']
      else if t = ''Stub'' then Links []
      else if t = ''[/b]'' then Links [''B'']
      else if t = ''Mercury''
        then OtherError ''Mercury may refer to: Mercury (planet), Mercury (element)''
      else PageError (t @ '' does not match any pages. Try another query!''))"

definition markup_error :: string where
  "markup_error =
     ''closing tag '' @ [CHR 0x27] @ ''[/b]'' @ [CHR 0x27] @ '' at position 29 doesn'' @
     [CHR 0x27] @ ''t match any open tag''"

definition example_console :: console where
  "example_console text = (if text = banner ''[/b]'' then Some markup_error else None)"

section \<open>Properties of the lookup and of the loops\<close>

lemma gol_fst:
  "fst (get_outbound_links out wiki t st) =
     (case lookup_outcome out wiki st t of
        Links ls \<Rightarrow> Inr ls
      | PageError msg \<Rightarrow> Inl (ModelRetry msg)
      | OtherError msg \<Rightarrow> Inl (Uncaught msg))"
  by (auto simp add: get_outbound_links_def lookup_outcome_def body_outcome_def Let_def
      split: option.splits page_outcome.splits)

lemma gol_outcome:
  "lookup_outcome out wiki (snd (get_outbound_links out wiki t st)) = lookup_outcome out wiki st"
  by (rule ext)
    (auto simp add: get_outbound_links_def lookup_outcome_def body_outcome_def Let_def
      split: option.splits page_outcome.splits)

lemma gol_cache_mono:
  "cache st u = Some ls \<Longrightarrow> cache (snd (get_outbound_links out wiki t st)) u = Some ls"
  by (auto simp add: get_outbound_links_def Let_def
      split: option.splits page_outcome.splits)

lemma gol_lookups:
  "lookups (snd (get_outbound_links out wiki t st)) =
     lookups st @ (if cache st t = None \<and> out (banner t) = None then [t] else [])"
  by (auto simp add: get_outbound_links_def Let_def
      split: option.splits page_outcome.splits)

lemma gol_cache:
  "cache (snd (get_outbound_links out wiki t st)) u =
     (if u = t \<and> cache st t = None
      then (case body_outcome out wiki t of
              Links ls \<Rightarrow> Some ls | PageError _ \<Rightarrow> None | OtherError _ \<Rightarrow> None)
      else cache st u)"
  by (simp add: get_outbound_links_def body_outcome_def Let_def
      split: option.splits page_outcome.splits)

lemma gol_sound:
  assumes "cache_sound out wiki st"
  shows "cache_sound out wiki (snd (get_outbound_links out wiki t st))"
  unfolding cache_sound_def
proof (intro allI impI)
  fix u ls
  assume c: "cache (snd (get_outbound_links out wiki t st)) u = Some ls"
  show "body_outcome out wiki u = Links ls"
  proof (cases "u = t \<and> cache st t = None")
    case True
    then show ?thesis using c unfolding gol_cache
      by (cases "body_outcome out wiki t") simp_all
  next
    case False
    then have "cache st u = Some ls" using c unfolding gol_cache by (auto split: if_splits)
    then show ?thesis using assms unfolding cache_sound_def by blast
  qed
qed

lemma sound_outcome: "cache_sound out wiki st \<Longrightarrow> lookup_outcome out wiki st = body_outcome out wiki"
  by (rule ext) (auto simp add: cache_sound_def lookup_outcome_def split: option.splits)

lemma nodes_add_links:
  "nodes (add_links u ls g) = nodes g \<union> (if ls = [] then {} else insert u (set ls))"
  unfolding add_links_def
  by (induction ls arbitrary: g) (auto simp add: add_edge_def)

lemma adj_add_links:
  "adj (add_links u ls g) = (adj g)(u := adj g u \<union> set ls)"
  unfolding add_links_def
  by (induction ls arbitrary: g) (auto simp add: add_edge_def fun_eq_iff)

lemma nodes_graph_of:
  "nodes (graph_of f ps g) =
     nodes g \<union> (\<Union>p\<in>set ps. if links_of (f p) = [] then {} else insert p (set (links_of (f p))))"
  unfolding graph_of_def
  by (induction ps arbitrary: g) (auto simp add: nodes_add_links split: if_splits)

lemma adj_graph_of:
  "adj (graph_of f ps g) A = adj g A \<union> (if A \<in> set ps then set (links_of (f A)) else {})"
  unfolding graph_of_def
  by (induction ps arbitrary: g) (auto simp add: adj_add_links)

lemma build_graph_fst:
  "fst (build_graph out wiki ps g st) =
     (case first_failure (lookup_outcome out wiki st) ps of
        Some e \<Rightarrow> Inl e
      | None \<Rightarrow> Inr (graph_of (lookup_outcome out wiki st) ps g))"
proof (induction ps arbitrary: g st)
  case Nil
  show ?case by (simp add: graph_of_def)
next
  case (Cons p ps)
  obtain r st1 where r: "get_outbound_links out wiki p st = (r, st1)"
    by (cases "get_outbound_links out wiki p st")
  have r1: "r = fst (get_outbound_links out wiki p st)" and st1: "st1 = snd (get_outbound_links out wiki p st)"
    using r by simp_all
  have o: "lookup_outcome out wiki st1 = lookup_outcome out wiki st"
    unfolding st1 by (rule gol_outcome)
  show ?case
  proof (cases "lookup_outcome out wiki st p")
    case (Links ls)
    then have "r = Inr ls" using r1 by (simp add: gol_fst)
    moreover have "graph_of (lookup_outcome out wiki st) (p # ps) g =
        graph_of (lookup_outcome out wiki st) ps (add_links p ls g)"
      using Links by (simp add: graph_of_def links_of_def)
    ultimately show ?thesis using r Links Cons.IH [of "add_links p ls g" st1]
      unfolding o by (simp cong: option.case_cong)
  next
    case (PageError msg)
    then have "r = Inl (ModelRetry msg)" using r1 by (simp add: gol_fst)
    then show ?thesis using r PageError by simp
  next
    case (OtherError msg)
    then have "r = Inl (Uncaught msg)" using r1 by (simp add: gol_fst)
    then show ?thesis using r OtherError by simp
  qed
qed

lemma gol_logged_once:
  assumes "logged_once out wiki st"
  shows "logged_once out wiki (snd (get_outbound_links out wiki t st))"
proof -
  have a: "\<And>u ls. body_outcome out wiki u = Links ls \<Longrightarrow>
      count_list (lookups st) u = (if cache st u = None then 0 else 1)"
    and b: "\<And>u msg. out (banner u) = Some msg \<Longrightarrow> count_list (lookups st) u = 0"
    using assms unfolding logged_once_def by blast+
  show ?thesis
    unfolding logged_once_def
  proof (intro conjI allI impI)
    fix u ls
    assume l: "body_outcome out wiki u = Links ls"
    then have o: "out (banner u) = None"
      by (cases "out (banner u)") (simp_all add: body_outcome_def)
    show "count_list (lookups (snd (get_outbound_links out wiki t st))) u =
        (if cache (snd (get_outbound_links out wiki t st)) u = None then 0 else 1)"
    proof (cases "u = t \<and> cache st t = None")
      case True
      then have "count_list (lookups st) u = 0" using a [OF l] by simp
      then show ?thesis using True l o unfolding gol_lookups gol_cache by simp
    next
      case False
      then show ?thesis using a [OF l] unfolding gol_lookups gol_cache by auto
    qed
  next
    fix u msg
    assume o: "out (banner u) = Some msg"
    then show "count_list (lookups (snd (get_outbound_links out wiki t st))) u = 0"
      using b [OF o] unfolding gol_lookups by auto
  qed
qed

lemma build_graph_snd_induct:
  assumes step: "\<And>t s. Q s \<Longrightarrow> Q (snd (get_outbound_links out wiki t s))"
    and init: "Q st"
  shows "Q (snd (build_graph out wiki ps g st))"
  using init
proof (induction ps arbitrary: g st)
  case Nil
  then show ?case by simp
next
  case (Cons p ps)
  obtain r st1 where r: "get_outbound_links out wiki p st = (r, st1)"
    by (cases "get_outbound_links out wiki p st")
  then have "st1 = snd (get_outbound_links out wiki p st)" by simp
  then have q: "Q st1" using step Cons.prems by simp
  show ?case
  proof (cases r)
    case (Inl e)
    then show ?thesis using r q by simp
  next
    case (Inr ls)
    then show ?thesis using r Cons.IH [OF q] by simp
  qed
qed

lemma build_graph_outcome:
  "lookup_outcome out wiki (snd (build_graph out wiki ps g st)) = lookup_outcome out wiki st"
  by (rule build_graph_snd_induct [where Q = "\<lambda>s. lookup_outcome out wiki s = lookup_outcome out wiki st"])
    (simp_all add: gol_outcome)

lemma build_graph_sound:
  "cache_sound out wiki st \<Longrightarrow> cache_sound out wiki (snd (build_graph out wiki ps g st))"
  by (rule build_graph_snd_induct [where Q = "cache_sound out wiki"]) (simp_all add: gol_sound)

lemma build_graph_logged_once:
  "logged_once out wiki st \<Longrightarrow> logged_once out wiki (snd (build_graph out wiki ps g st))"
  by (rule build_graph_snd_induct [where Q = "logged_once out wiki"]) (simp_all add: gol_logged_once)

lemma build_graph_cache_mono:
  "cache st u = Some ls \<Longrightarrow> cache (snd (build_graph out wiki ps g st)) u = Some ls"
  by (rule build_graph_snd_induct [where Q = "\<lambda>s. cache s u = Some ls"])
    (simp_all add: gol_cache_mono)

lemma build_graph_lookups:
  "\<exists>new. lookups (snd (build_graph out wiki ps g st)) = lookups st @ new \<and> set new \<subseteq> set ps"
proof (induction ps arbitrary: g st)
  case Nil
  show ?case by simp
next
  case (Cons p ps)
  obtain r st1 where r: "get_outbound_links out wiki p st = (r, st1)"
    by (cases "get_outbound_links out wiki p st")
  then have "st1 = snd (get_outbound_links out wiki p st)" by simp
  then have l: "lookups st1 =
      lookups st @ (if cache st p = None \<and> out (banner p) = None then [p] else [])"
    by (simp add: gol_lookups)
  show ?case
  proof (cases r)
    case (Inl e)
    then show ?thesis using r l by auto
  next
    case (Inr ls)
    obtain new where "lookups (snd (build_graph out wiki ps (add_links p ls g) st1)) = lookups st1 @ new"
      and "set new \<subseteq> set ps"
      using Cons.IH [of "add_links p ls g" st1] by blast
    then show ?thesis using r Inr l by auto
  qed
qed

lemma validate_path_snd:
  "snd (validate_path out wiki d st) =
     (case d of PathFoundResult ps \<Rightarrow> snd (build_graph out wiki ps DiGraph st) | NoPathFoundResult \<Rightarrow> st)"
  by (simp add: validate_path_def split: ResultType.splits prod.splits sum.splits)

lemma validate_path_fst:
  "fst (validate_path out wiki (PathFoundResult ps) st) =
     (case first_failure (lookup_outcome out wiki st) ps of
        Some e \<Rightarrow> Inl e
      | None \<Rightarrow>
          if is_simple_path (graph_of (lookup_outcome out wiki st) ps DiGraph) ps
          then Inr (PathFoundResult ps)
          else Inl (ModelRetry ''Path is not valid''))"
proof -
  obtain r st1 where r: "build_graph out wiki ps DiGraph st = (r, st1)"
    by (cases "build_graph out wiki ps DiGraph st")
  then have "r = fst (build_graph out wiki ps DiGraph st)" by simp
  then have "r = (case first_failure (lookup_outcome out wiki st) ps of
        Some e \<Rightarrow> Inl e
      | None \<Rightarrow> Inr (graph_of (lookup_outcome out wiki st) ps DiGraph))"
    by (simp add: build_graph_fst)
  then show ?thesis using r
    by (simp add: validate_path_def split: option.splits)
qed

lemma validate_path_sound:
  "cache_sound out wiki st \<Longrightarrow> cache_sound out wiki (snd (validate_path out wiki d st))"
  by (simp add: validate_path_snd build_graph_sound split: ResultType.splits)

lemma validate_path_logged_once:
  "logged_once out wiki st \<Longrightarrow> logged_once out wiki (snd (validate_path out wiki d st))"
  by (simp add: validate_path_snd build_graph_logged_once split: ResultType.splits)

lemma validate_path_cache_mono:
  "cache st u = Some ls \<Longrightarrow> cache (snd (validate_path out wiki d st)) u = Some ls"
  by (simp add: validate_path_snd build_graph_cache_mono split: ResultType.splits)

lemma run_validations_sound:
  "cache_sound out wiki st \<Longrightarrow> cache_sound out wiki (run_validations out wiki ds st)"
  unfolding run_validations_def
  by (induction ds arbitrary: st) (simp_all add: validate_path_sound)

lemma run_validations_logged_once:
  "logged_once out wiki st \<Longrightarrow> logged_once out wiki (run_validations out wiki ds st)"
  unfolding run_validations_def
  by (induction ds arbitrary: st) (simp_all add: validate_path_logged_once)

lemma fresh_sound: "cache_sound out wiki fresh"
  by (simp add: cache_sound_def fresh_def)

lemma fresh_logged_once: "logged_once out wiki fresh"
  by (simp add: logged_once_def fresh_def)

lemma history_outcome:
  "lookup_outcome out wiki (run_validations out wiki ds fresh) = body_outcome out wiki"
  by (rule sound_outcome) (rule run_validations_sound [OF fresh_sound])

lemma first_failure_None:
  "first_failure f ps = None \<longleftrightarrow> (\<forall>p\<in>set ps. \<exists>ls. f p = Links ls)"
  by (induction ps) (auto split: page_outcome.splits)

lemma first_failure_append_PageError:
  "\<forall>q\<in>set qs. \<exists>ls. f q = Links ls \<Longrightarrow> f t = PageError msg \<Longrightarrow>
     first_failure f (qs @ t # rs) = Some (ModelRetry msg)"
  by (induction qs) auto

lemma first_failure_Uncaught:
  "first_failure f ps = Some (Uncaught x) \<Longrightarrow> \<exists>p\<in>set ps. f p = OtherError x"
  by (induction ps) (auto split: page_outcome.splits)

lemma adj_graph_of_empty:
  "adj (graph_of f ps DiGraph) A = (if A \<in> set ps then set (links_of (f A)) else {})"
  by (simp add: adj_graph_of DiGraph_def)

lemma nodes_graph_of_empty:
  "nodes (graph_of f ps DiGraph) =
     (\<Union>p\<in>set ps. if links_of (f p) = [] then {} else insert p (set (links_of (f p))))"
  by (simp add: nodes_graph_of DiGraph_def)

lemma source_is_node:
  "p \<in> set ps \<Longrightarrow> v \<in> set (links_of (f p)) \<Longrightarrow> p \<in> nodes (graph_of f ps DiGraph)"
  unfolding nodes_graph_of_empty by (rule UN_I [of p]) auto

lemma target_is_node:
  "p \<in> set ps \<Longrightarrow> v \<in> set (links_of (f p)) \<Longrightarrow> v \<in> nodes (graph_of f ps DiGraph)"
  unfolding nodes_graph_of_empty by (rule UN_I [of p]) auto

lemma not_distinct_not_simple: "\<not> distinct ps \<Longrightarrow> \<not> is_simple_path g ps"
proof -
  assume d: "\<not> distinct ps"
  then have "length (remdups ps) \<noteq> length ps"
    by simp
  moreover have "length ps \<noteq> 1" using d by (auto simp add: length_Suc_conv)
  ultimately show ?thesis by (simp add: is_simple_path_def)
qed

lemma pair_in_pairwise:
  "Suc i < length ps \<Longrightarrow> (ps ! i, ps ! Suc i) \<in> set (pairwise_list ps)"
  unfolding pairwise_list_def in_set_zip
  by (rule exI [of _ i]) (simp add: nth_tl)

lemma pairwise_pairs:
  "(u, v) \<in> set (pairwise_list ps) \<Longrightarrow>
     \<exists>i. Suc i < length ps \<and> u = ps ! i \<and> v = ps ! Suc i"
proof -
  assume "(u, v) \<in> set (pairwise_list ps)"
  then obtain n where n: "u = ps ! n" "v = tl ps ! n" "n < length ps" "n < length (tl ps)"
    unfolding pairwise_list_def in_set_zip by auto
  then have "Suc n < length ps" by simp
  moreover have "v = ps ! Suc n" using n by (simp add: nth_tl)
  ultimately show ?thesis using n(1) by blast
qed

lemma gap_not_simple:
  assumes "Suc i < length ps" and "ps ! Suc i \<notin> adj g (ps ! i)"
  shows "\<not> is_simple_path g ps"
proof
  assume s: "is_simple_path g ps"
  have "length ps \<noteq> 0" "length ps \<noteq> 1" using assms(1) by auto
  then have "list_all (\<lambda>(u, v). v \<in> adj g u) (pairwise_list ps)"
    using s by (simp add: is_simple_path_def split: if_splits)
  then have "ps ! Suc i \<in> adj g (ps ! i)"
    using pair_in_pairwise [OF assms(1)] by (auto simp add: list_all_iff)
  then show False using assms(2) by simp
qed

lemma single_simple:
  "links_of (f x) \<noteq> [] \<Longrightarrow> is_simple_path (graph_of f [x] DiGraph) [x]"
  by (simp add: is_simple_path_def nodes_graph_of_empty)

lemma linked_all_nodes:
  assumes len: "2 \<le> length ps"
    and link: "\<And>i. Suc i < length ps \<Longrightarrow> ps ! Suc i \<in> set (links_of (f (ps ! i)))"
    and n: "n \<in> set ps"
  shows "n \<in> nodes (graph_of f ps DiGraph)"
proof -
  obtain k where k: "k < length ps" "ps ! k = n" using n unfolding in_set_conv_nth by blast
  show ?thesis
  proof (cases "Suc k < length ps")
    case True
    then have "ps ! Suc k \<in> set (links_of (f (ps ! k)))" by (rule link)
    then have "ps ! Suc k \<in> set (links_of (f n))" unfolding k(2) .
    with n show ?thesis by (rule source_is_node)
  next
    case False
    then obtain j where j: "k = Suc j" using k(1) len by (cases k) auto
    then have sj: "Suc j < length ps" using k(1) by simp
    then have "ps ! Suc j \<in> set (links_of (f (ps ! j)))" by (rule link)
    then have m: "n \<in> set (links_of (f (ps ! j)))" using k(2) j by simp
    have "ps ! j \<in> set ps" using sj by simp
    then show ?thesis using m by (rule target_is_node)
  qed
qed

lemma linked_all_edges:
  assumes link: "\<And>i. Suc i < length ps \<Longrightarrow> ps ! Suc i \<in> set (links_of (f (ps ! i)))"
  shows "list_all (\<lambda>(u, v). v \<in> adj (graph_of f ps DiGraph) u) (pairwise_list ps)"
  unfolding list_all_iff
proof (intro ballI)
  fix e assume e: "e \<in> set (pairwise_list ps)"
  obtain u v where uv: "e = (u, v)" by (cases e)
  have "(u, v) \<in> set (pairwise_list ps)" using e unfolding uv .
  from pairwise_pairs [OF this]
  obtain i where i: "Suc i < length ps" "u = ps ! i" "v = ps ! Suc i"
    by (elim exE conjE)
  have "ps ! Suc i \<in> set (links_of (f (ps ! i)))" using i(1) by (rule link)
  then have "v \<in> set (links_of (f u))" unfolding i(2,3) .
  moreover have "u \<in> set ps" unfolding i(2) using i(1) by simp
  ultimately have "v \<in> adj (graph_of f ps DiGraph) u" by (simp add: adj_graph_of_empty)
  then show "case e of (u, v) \<Rightarrow> v \<in> adj (graph_of f ps DiGraph) u" unfolding uv by simp
qed

lemma linked_simple:
  assumes ne: "ps \<noteq> []" and d: "distinct ps"
    and link: "\<And>i. Suc i < length ps \<Longrightarrow> ps ! Suc i \<in> set (links_of (f (ps ! i)))"
    and single: "length ps = 1 \<Longrightarrow> links_of (f (hd ps)) \<noteq> []"
  shows "is_simple_path (graph_of f ps DiGraph) ps"
proof (cases "length ps = 1")
  case True
  then obtain x where x: "ps = [x]" by (cases ps) auto
  have "links_of (f (hd ps)) \<noteq> []" using True by (rule single)
  then have "links_of (f x) \<noteq> []" unfolding x by simp
  then show ?thesis unfolding x by (rule single_simple)
next
  case False
  moreover have l0: "length ps \<noteq> 0" using ne by simp
  ultimately have len: "2 \<le> length ps" by arith
  have all_nodes: "list_all (\<lambda>n. n \<in> nodes (graph_of f ps DiGraph)) ps"
    unfolding list_all_iff using linked_all_nodes [OF len link] by blast
  have rd: "length (remdups ps) = length ps" using d by simp
  show ?thesis unfolding is_simple_path_def
    using l0 False all_nodes rd linked_all_edges [OF link] by simp
qed

lemma body_Links:
  "body_outcome out wiki t = Links ls \<longleftrightarrow> out (banner t) = None \<and> wiki t = Links ls"
  by (cases "out (banner t)") (simp_all add: body_outcome_def)

lemma body_PageError:
  "body_outcome out wiki t = PageError msg \<longleftrightarrow> out (banner t) = None \<and> wiki t = PageError msg"
  by (cases "out (banner t)") (simp_all add: body_outcome_def)

lemma body_OtherError:
  "body_outcome out wiki t = OtherError msg \<longleftrightarrow>
     out (banner t) = Some msg \<or> (out (banner t) = None \<and> wiki t = OtherError msg)"
  by (cases "out (banner t)") (simp_all add: body_outcome_def)

lemma history_validate_fst:
  "fst (validate_path out wiki (PathFoundResult ps) (run_validations out wiki ds fresh)) =
     (case first_failure (body_outcome out wiki) ps of
        Some e \<Rightarrow> Inl e
      | None \<Rightarrow>
          if is_simple_path (graph_of (body_outcome out wiki) ps DiGraph) ps
          then Inr (PathFoundResult ps)
          else Inl (ModelRetry ''Path is not valid''))"
  by (simp add: validate_path_fst history_outcome)

lemma history_sound: "cache_sound out wiki (run_validations out wiki ds fresh)"
  by (rule run_validations_sound [OF fresh_sound])

lemma validate_path_build_graph:
  "build_graph out wiki ps DiGraph st = (r, st1) \<Longrightarrow>
     validate_path out wiki (PathFoundResult ps) st =
       ((case r of
           Inl e \<Rightarrow> Inl e
         | Inr g \<Rightarrow>
             if is_simple_path g ps then Inr (PathFoundResult ps)
             else Inl (ModelRetry ''Path is not valid'')), st1)"
  by (cases r) (simp_all add: validate_path_def)

lemma build_graph_lookups_exact:
  "first_failure (lookup_outcome out wiki st) ps = None \<Longrightarrow>
     (\<exists>new. lookups (snd (build_graph out wiki ps g st)) = lookups st @ new \<and> distinct new \<and>
        set new = {t \<in> set ps. cache st t = None}) \<and>
     (\<forall>t\<in>set ps. \<exists>ls. cache (snd (build_graph out wiki ps g st)) t = Some ls)"
proof (induction ps arbitrary: g st)
  case Nil
  show ?case by simp
next
  case (Cons p ps)
  obtain ls where ls: "lookup_outcome out wiki st p = Links ls"
    using Cons.prems by (cases "lookup_outcome out wiki st p") simp_all
  then have ff: "first_failure (lookup_outcome out wiki st) ps = None"
    using Cons.prems by simp
  obtain r st1 where r: "get_outbound_links out wiki p st = (r, st1)"
    by (cases "get_outbound_links out wiki p st")
  then have r1: "r = fst (get_outbound_links out wiki p st)"
    and s1: "st1 = snd (get_outbound_links out wiki p st)"
    by simp_all
  have rr: "r = Inr ls" using r1 ls by (simp add: gol_fst)
  have o: "lookup_outcome out wiki st1 = lookup_outcome out wiki st"
    unfolding s1 by (rule gol_outcome)
  have b: "build_graph out wiki (p # ps) g st = build_graph out wiki ps (add_links p ls g) st1"
    using r rr by simp
  have ff1: "first_failure (lookup_outcome out wiki st1) ps = None" using ff o by simp
  obtain new where n1: "lookups (snd (build_graph out wiki ps (add_links p ls g) st1)) =
      lookups st1 @ new"
    and n2: "distinct new" and n3: "set new = {t \<in> set ps. cache st1 t = None}"
    and c: "\<forall>t\<in>set ps. \<exists>ks. cache (snd (build_graph out wiki ps (add_links p ls g) st1)) t = Some ks"
    using Cons.IH [OF ff1, of "add_links p ls g"] by blast
  show ?case
  proof (cases "cache st p")
    case None
    then have bo: "body_outcome out wiki p = Links ls" using ls by (simp add: lookup_outcome_def)
    then have op: "out (banner p) = None" by (simp add: body_Links)
    have l1: "lookups st1 = lookups st @ [p]" unfolding s1 gol_lookups using None op by simp
    have c1: "cache st1 u = (if u = p then Some ls else cache st u)" for u
      unfolding s1 gol_cache using None bo by simp
    have "p \<notin> set new" using n3 c1 by simp
    moreover have "set (p # new) = {t \<in> set (p # ps). cache st t = None}"
      using n3 c1 None by auto
    moreover have "lookups (snd (build_graph out wiki (p # ps) g st)) = lookups st @ (p # new)"
      unfolding b n1 l1 by simp
    ultimately have "\<exists>new. lookups (snd (build_graph out wiki (p # ps) g st)) = lookups st @ new \<and>
        distinct new \<and> set new = {t \<in> set (p # ps). cache st t = None}"
      using n2 by (intro exI [of _ "p # new"]) simp
    moreover have "cache st1 p = Some ls" using c1 by simp
    then have "cache (snd (build_graph out wiki (p # ps) g st)) p = Some ls"
      unfolding b by (rule build_graph_cache_mono)
    ultimately show ?thesis using c unfolding b by simp
  next
    case (Some ks)
    then have st1: "st1 = st" using r by (simp add: get_outbound_links_def)
    have "set new = {t \<in> set (p # ps). cache st t = None}" using n3 Some st1 by auto
    then have "\<exists>new. lookups (snd (build_graph out wiki (p # ps) g st)) = lookups st @ new \<and>
        distinct new \<and> set new = {t \<in> set (p # ps). cache st t = None}"
      using n1 n2 st1 unfolding b by blast
    moreover have "cache st1 p = Some ks" using Some st1 by simp
    then have "cache (snd (build_graph out wiki (p # ps) g st)) p = Some ks"
      unfolding b by (rule build_graph_cache_mono)
    ultimately show ?thesis using c unfolding b by simp
  qed
qed

lemma never_accepted:
  assumes "\<not> is_simple_path (graph_of (body_outcome out wiki) ps DiGraph) ps"
  shows "(\<exists>e. fst (validate_path out wiki (PathFoundResult ps) (run_validations out wiki ds fresh)) =
        Inl e) \<and>
    ((\<forall>t\<in>set ps. out (banner t) = None \<and> (\<forall>x. wiki t \<noteq> OtherError x)) \<longrightarrow>
       (\<exists>r. fst (validate_path out wiki (PathFoundResult ps) (run_validations out wiki ds fresh)) =
          Inl (ModelRetry r))) \<and>
    ((\<forall>t\<in>set ps. out (banner t) = None \<and> (\<exists>ls. wiki t = Links ls)) \<longrightarrow>
       fst (validate_path out wiki (PathFoundResult ps) (run_validations out wiki ds fresh)) =
          Inl (ModelRetry ''Path is not valid''))"
proof (cases "first_failure (body_outcome out wiki) ps")
  case None
  then show ?thesis using assms by (simp add: history_validate_fst)
next
  case (Some e)
  have "\<not> (\<forall>t\<in>set ps. \<exists>ls. body_outcome out wiki t = Links ls)"
    using Some first_failure_None [of "body_outcome out wiki" ps] by simp
  then have a: "\<not> (\<forall>t\<in>set ps. out (banner t) = None \<and> (\<exists>ls. wiki t = Links ls))"
    unfolding body_Links by blast
  show ?thesis
  proof (cases e)
    case (ModelRetry r)
    then show ?thesis using Some a by (auto simp add: history_validate_fst)
  next
    case (Uncaught x)
    then have "\<exists>p\<in>set ps. body_outcome out wiki p = OtherError x"
      using Some first_failure_Uncaught by blast
    then have "\<not> (\<forall>t\<in>set ps. out (banner t) = None \<and> (\<forall>x. wiki t \<noteq> OtherError x))"
      unfolding body_OtherError by fastforce
    then show ?thesis using Some a by (auto simp add: history_validate_fst)
  qed
qed

section \<open>Concrete runs\<close>

lemma example_wiki_simps:
  "example_wiki ''Lindsay Lohan'' = Links [''Donald Trump'']"
  "example_wiki ''Donald Trump'' = Links [''Barack Obama'']"
  "example_wiki ''Barack Obama'' = Links [''Donald Trump'']"
  "example_wiki ''A'' = Links [''B'', ''Red Link'']"
  "example_wiki ''B'' = Links [''A'']"
  "example_wiki ''Stub'' = Links []"
  "example_wiki ''[/b]'' = Links [''B'']"
  "example_wiki ''Mercury'' = OtherError ''Mercury may refer to: Mercury (planet), Mercury (element)''"
  "example_wiki ''Red Link'' = PageError ''Red Link does not match any pages. Try another query!''"
  "example_wiki ''Nonexistent Page'' =
     PageError ''Nonexistent Page does not match any pages. Try another query!''"
  by (simp_all add: example_wiki_def)

lemma banner_inject: "banner s = banner t \<longleftrightarrow> s = t"
  unfolding banner_def by (rule trans [OF same_append_eq]) simp

lemma example_console_banner:
  "example_console (banner t) = (if t = ''[/b]'' then Some markup_error else None)"
  by (simp add: example_console_def banner_inject)

text \<open>
  A page without links is no node of the graph, so a path made of that page alone is
  rejected.
\<close>

lemma single_title_without_links_rejected:
  "fst (validate_path example_console example_wiki (PathFoundResult [''Stub'']) fresh) =
     Inl (ModelRetry ''Path is not valid'')"
  by (simp add: example_wiki_simps example_console_banner validate_path_def
      get_outbound_links_def fresh_def Let_def is_simple_path_def add_links_def DiGraph_def)

text \<open>
  A title that rich's print reads as an unmatched closing tag: the print raises before the
  client is asked, the exception leaves the validator, and nothing is logged or cached.
\<close>

lemma title_with_closing_tag_raises:
  "validate_path example_console example_wiki (PathFoundResult [''[/b]'', ''B'']) fresh =
     (Inl (Uncaught markup_error), fresh)"
  by (simp add: example_console_banner validate_path_def get_outbound_links_def fresh_def)

section \<open>The validator where no exception escapes\<close>

text \<open>
  A path in which a title occurs twice is never accepted. Where every title prints and the
  client raises nothing but \<open>PageError\<close>, the validator raises \<open>ModelRetry\<close>; where
  every title resolves, it raises \<open>ModelRetry\<close> with its own text.
\<close>

lemma repeated_title_outcome:
  assumes "\<not> distinct P"
  shows "(\<exists>e. fst (validate_path out wiki (PathFoundResult P) (run_validations out wiki ds fresh)) =
        Inl e) \<and>
    ((\<forall>t\<in>set P. out (banner t) = None \<and> (\<forall>x. wiki t \<noteq> OtherError x)) \<longrightarrow>
       (\<exists>r. fst (validate_path out wiki (PathFoundResult P) (run_validations out wiki ds fresh)) =
          Inl (ModelRetry r))) \<and>
    ((\<forall>t\<in>set P. out (banner t) = None \<and> (\<exists>ls. wiki t = Links ls)) \<longrightarrow>
       fst (validate_path out wiki (PathFoundResult P) (run_validations out wiki ds fresh)) =
          Inl (ModelRetry ''Path is not valid''))"
  using not_distinct_not_simple [OF assms] by (rule never_accepted)

text \<open>The same holds of a path with a consecutive pair that no link joins.\<close>

lemma missing_link_outcome:
  assumes "Suc i < length P"
    and "\<not> (\<exists>ls. wiki (P ! i) = Links ls \<and> P ! Suc i \<in> set ls)"
  shows "(\<exists>e. fst (validate_path out wiki (PathFoundResult P) (run_validations out wiki ds fresh)) =
        Inl e) \<and>
    ((\<forall>t\<in>set P. out (banner t) = None \<and> (\<forall>x. wiki t \<noteq> OtherError x)) \<longrightarrow>
       (\<exists>r. fst (validate_path out wiki (PathFoundResult P) (run_validations out wiki ds fresh)) =
          Inl (ModelRetry r))) \<and>
    ((\<forall>t\<in>set P. out (banner t) = None \<and> (\<exists>ls. wiki t = Links ls)) \<longrightarrow>
       fst (validate_path out wiki (PathFoundResult P) (run_validations out wiki ds fresh)) =
          Inl (ModelRetry ''Path is not valid''))"
proof -
  have "P ! Suc i \<notin> set (links_of (body_outcome out wiki (P ! i)))"
  proof (cases "body_outcome out wiki (P ! i)")
    case (Links ls)
    then have "wiki (P ! i) = Links ls" by (simp add: body_Links)
    then have "P ! Suc i \<notin> set ls" using assms(2) by blast
    then show ?thesis using Links by (simp add: links_of_def)
  next
    case (PageError msg)
    then show ?thesis by (simp add: links_of_def)
  next
    case (OtherError msg)
    then show ?thesis by (simp add: links_of_def)
  qed
  moreover have "P ! i \<in> set P" using assms(1) by simp
  ultimately have "P ! Suc i \<notin> adj (graph_of (body_outcome out wiki) P DiGraph) (P ! i)"
    by (simp add: adj_graph_of_empty)
  with assms(1) have "\<not> is_simple_path (graph_of (body_outcome out wiki) P DiGraph) P"
    by (rule gap_not_simple)
  then show ?thesis by (rule never_accepted)
qed

text \<open>
  Where the titles before the first unresolvable one print and resolve, and that one prints
  and fails with \<open>PageError\<close>, the validator raises \<open>ModelRetry\<close> with the client's text.
\<close>

lemma first_unresolvable_title_outcome:
  assumes "P = qs @ t # rs"
    and "\<forall>q\<in>set qs. out (banner q) = None \<and> (\<exists>ls. wiki q = Links ls)"
    and "out (banner t) = None" and "wiki t = PageError msg"
  shows "fst (validate_path out wiki (PathFoundResult P) (run_validations out wiki ds fresh)) =
    Inl (ModelRetry msg)"
proof -
  have "\<forall>q\<in>set qs. \<exists>ls. body_outcome out wiki q = Links ls"
    using assms(2) unfolding body_Links by blast
  moreover have "body_outcome out wiki t = PageError msg"
    using assms(3,4) by (simp add: body_PageError)
  ultimately have "first_failure (body_outcome out wiki) P = Some (ModelRetry msg)"
    unfolding assms(1) by (rule first_failure_append_PageError)
  then show ?thesis by (simp add: history_validate_fst)
qed

text \<open>
  Where every title of the path prints and the client raises nothing but \<open>PageError\<close>,
  the validator accepts the path or raises \<open>ModelRetry\<close>.
\<close>

lemma accepted_or_retry:
  assumes "\<forall>t\<in>set P. out (banner t) = None \<and> (\<forall>x. wiki t \<noteq> OtherError x)"
  shows "fst (validate_path out wiki (PathFoundResult P) (run_validations out wiki ds fresh)) =
      Inr (PathFoundResult P) \<or>
    (\<exists>m. fst (validate_path out wiki (PathFoundResult P) (run_validations out wiki ds fresh)) =
      Inl (ModelRetry m))"
proof (cases "first_failure (body_outcome out wiki) P")
  case None
  then show ?thesis by (simp add: history_validate_fst)
next
  case (Some e)
  show ?thesis
  proof (cases e)
    case (ModelRetry m)
    then show ?thesis using Some by (simp add: history_validate_fst)
  next
    case (Uncaught x)
    then have "\<exists>p\<in>set P. body_outcome out wiki p = OtherError x"
      using Some first_failure_Uncaught by blast
    then have False using assms unfolding body_OtherError by fastforce
    then show ?thesis ..
  qed
qed

section \<open>Results\<close>

text \<open>
  C10. A \<open>NoPathFoundResult\<close> is handed back unchanged: the validator returns it as its
  value and leaves the process state as it was, so the cache is not consulted, the
  external client is not asked and no graph is built.
\<close>

theorem no_path_found_passes_unchanged:
  "validate_path out wiki NoPathFoundResult st = (Inr NoPathFoundResult, st)"
  by (simp add: validate_path_def)

text \<open>
  C8. The empty candidate path is rejected with the retryable \<open>ModelRetry\<close> and the process
  state, hence the log of external lookups, is unchanged.
\<close>

theorem empty_path_rejected:
  "validate_path out wiki (PathFoundResult []) st =
     (Inl (ModelRetry ''Path is not valid''), st)"
  by (simp add: validate_path_def is_simple_path_def)

text \<open>
  C1, as the code has it. The loop looks up every title of the path, the last one
  included, so every title has to print and to resolve. Then a non-empty path of pairwise
  distinct titles in which every title links to its successor is accepted, after any
  earlier validations of the same process. For a path of a single title the statement
  covers the title that has at least one outbound link.
\<close>

theorem linked_distinct_resolving_path_accepted:
  assumes "P \<noteq> []" and "distinct P"
    and "\<forall>t\<in>set P. out (banner t) = None"
    and "\<forall>t\<in>set P. \<exists>ls. wiki t = Links ls"
    and "\<forall>i. Suc i < length P \<longrightarrow> (\<exists>ls. wiki (P ! i) = Links ls \<and> P ! Suc i \<in> set ls)"
    and "length P = 1 \<longrightarrow> wiki (hd P) \<noteq> Links []"
  shows "fst (validate_path out wiki (PathFoundResult P) (run_validations out wiki ds fresh)) =
    Inr (PathFoundResult P)"
proof -
  have same: "body_outcome out wiki t = wiki t" if "t \<in> set P" for t
    using that assms(3) by (simp add: body_outcome_def)
  have "\<forall>t\<in>set P. \<exists>ls. body_outcome out wiki t = Links ls" using same assms(4) by simp
  then have ff: "first_failure (body_outcome out wiki) P = None"
    by (simp add: first_failure_None)
  have link: "P ! Suc i \<in> set (links_of (body_outcome out wiki (P ! i)))"
    if si: "Suc i < length P" for i
  proof -
    obtain ls where "wiki (P ! i) = Links ls" "P ! Suc i \<in> set ls" using assms(5) si by blast
    moreover have "P ! i \<in> set P" using si by simp
    ultimately show ?thesis using same by (simp add: links_of_def)
  qed
  have single: "links_of (body_outcome out wiki (hd P)) \<noteq> []" if l: "length P = 1"
  proof -
    have h: "hd P \<in> set P" using assms(1) by simp
    then obtain ls where ls: "wiki (hd P) = Links ls" using assms(4) by blast
    moreover have "wiki (hd P) \<noteq> Links []" using assms(6) l by blast
    ultimately show ?thesis using same [OF h] by (auto simp add: links_of_def)
  qed
  have "is_simple_path (graph_of (body_outcome out wiki) P DiGraph) P"
    using assms(1,2) link single by (rule linked_simple)
  then show ?thesis using ff by (simp add: history_validate_fst)
qed

text \<open>
  The scenario of the specification: Lindsay Lohan links to Donald Trump, Donald Trump to
  Barack Obama, and all three resolve.
\<close>

theorem linked_distinct_resolving_path_accepted_witness:
  "distinct [''Lindsay Lohan'', ''Donald Trump'', ''Barack Obama''] \<and>
   fst (validate_path example_console example_wiki
     (PathFoundResult [''Lindsay Lohan'', ''Donald Trump'', ''Barack Obama'']) fresh) =
   Inr (PathFoundResult [''Lindsay Lohan'', ''Donald Trump'', ''Barack Obama''])"
proof -
  let ?P = "[''Lindsay Lohan'', ''Donald Trump'', ''Barack Obama'']"
  have h1: "?P \<noteq> []" by simp
  have h2: "distinct ?P" by simp
  have h3: "\<forall>t\<in>set ?P. example_console (banner t) = None"
    by (simp add: example_console_banner)
  have h4: "\<forall>t\<in>set ?P. \<exists>ls. example_wiki t = Links ls" by (simp add: example_wiki_simps)
  have h5: "\<forall>i. Suc i < length ?P \<longrightarrow>
      (\<exists>ls. example_wiki (?P ! i) = Links ls \<and> ?P ! Suc i \<in> set ls)"
  proof (intro allI impI)
    fix i assume "Suc i < length ?P"
    then have "i = 0 \<or> i = 1" by auto
    then show "\<exists>ls. example_wiki (?P ! i) = Links ls \<and> ?P ! Suc i \<in> set ls"
      by (auto simp add: example_wiki_simps)
  qed
  have h6: "length ?P = 1 \<longrightarrow> example_wiki (hd ?P) \<noteq> Links []" by simp
  from linked_distinct_resolving_path_accepted [OF h1 h2 h3 h4 h5 h6, of "[]"] h2
  show ?thesis by (simp add: run_validations_def)
qed

text \<open>
  C1 as the specification words it asks nothing of the last title. Here \<open>A\<close> links to
  \<open>Red Link\<close>, the two titles are distinct, and the path is rejected because the
  lookup of \<open>Red Link\<close> raises \<open>PageError\<close>.
\<close>

theorem linked_path_with_unresolvable_end_rejected:
  "[''A'', ''Red Link''] \<noteq> [] \<and> distinct [''A'', ''Red Link''] \<and>
   example_wiki ''A'' = Links [''B'', ''Red Link''] \<and> ''Red Link'' \<in> set [''B'', ''Red Link''] \<and>
   fst (validate_path example_console example_wiki (PathFoundResult [''A'', ''Red Link'']) fresh) =
   Inl (ModelRetry ''Red Link does not match any pages. Try another query!'')"
  by (simp add: example_wiki_simps example_console_banner validate_path_def
      get_outbound_links_def fresh_def Let_def)

text \<open>
  C2. The code at a path that repeats a title on which the external client raises an
  exception other than \<open>PageError\<close>: the handler of the lookup does not catch it, and
  the validator ends with that exception instead of rejecting the path with
  \<open>ModelRetry\<close>.
\<close>

theorem repeated_title_with_uncaught_exception:
  "\<not> distinct [''Mercury'', ''Mercury''] \<and>
   fst (validate_path example_console example_wiki
     (PathFoundResult [''Mercury'', ''Mercury'']) fresh) =
   Inl (Uncaught ''Mercury may refer to: Mercury (planet), Mercury (element)'')"
  by (simp add: example_wiki_simps example_console_banner validate_path_def
      get_outbound_links_def fresh_def Let_def)

text \<open>
  C3. The code at a path whose first two titles are not joined by a link and whose third
  title makes the external client raise an exception other than \<open>PageError\<close>: the
  validator ends with that exception instead of rejecting the path with \<open>ModelRetry\<close>.
\<close>

theorem missing_link_with_uncaught_exception:
  "example_wiki ''Lindsay Lohan'' = Links [''Donald Trump''] \<and>
   ''Barack Obama'' \<notin> set [''Donald Trump''] \<and>
   fst (validate_path example_console example_wiki
     (PathFoundResult [''Lindsay Lohan'', ''Barack Obama'', ''Mercury'']) fresh) =
   Inl (Uncaught ''Mercury may refer to: Mercury (planet), Mercury (element)'')"
  by (simp add: example_wiki_simps example_console_banner validate_path_def
      get_outbound_links_def fresh_def Let_def)

text \<open>
  C4, as the code has it. For a path of one title that prints, the validator does look the
  title up: the external client is asked for it unless the title is already cached. The
  path is accepted when the title resolves with at least one outbound link, with no
  requirement on what the links are, and rejected with the client's message when the
  client raises \<open>PageError\<close>.
\<close>

theorem single_title_path:
  "(out (banner X) = None \<and> wiki X = Links ls \<and> ls \<noteq> [] \<longrightarrow>
      fst (validate_path out wiki (PathFoundResult [X]) (run_validations out wiki ds fresh)) =
        Inr (PathFoundResult [X])) \<and>
   (out (banner X) = None \<and> wiki X = PageError msg \<longrightarrow>
      fst (validate_path out wiki (PathFoundResult [X]) (run_validations out wiki ds fresh)) =
        Inl (ModelRetry msg)) \<and>
   (out (banner X) = None \<longrightarrow>
      lookups (snd (validate_path out wiki (PathFoundResult [X]) st)) =
        lookups st @ (if cache st X = None then [X] else []))"
proof (intro conjI impI)
  assume a: "out (banner X) = None \<and> wiki X = Links ls \<and> ls \<noteq> []"
  then have b: "body_outcome out wiki X = Links ls" by (simp add: body_Links)
  then have "is_simple_path (graph_of (body_outcome out wiki) [X] DiGraph) [X]"
    using a by (intro single_simple) (simp add: links_of_def)
  then show "fst (validate_path out wiki (PathFoundResult [X]) (run_validations out wiki ds fresh)) =
      Inr (PathFoundResult [X])"
    using b by (simp add: history_validate_fst)
next
  assume "out (banner X) = None \<and> wiki X = PageError msg"
  then have "body_outcome out wiki X = PageError msg" by (simp add: body_PageError)
  then show "fst (validate_path out wiki (PathFoundResult [X]) (run_validations out wiki ds fresh)) =
      Inl (ModelRetry msg)"
    by (simp add: history_validate_fst)
next
  assume o: "out (banner X) = None"
  obtain r st1 where r: "get_outbound_links out wiki X st = (r, st1)"
    by (cases "get_outbound_links out wiki X st")
  then have "st1 = snd (get_outbound_links out wiki X st)" by simp
  then have "lookups st1 = lookups st @ (if cache st X = None then [X] else [])"
    using o by (simp add: gol_lookups)
  then show "lookups (snd (validate_path out wiki (PathFoundResult [X]) st)) =
      lookups st @ (if cache st X = None then [X] else [])"
    using r by (cases r) (simp_all add: validate_path_snd)
qed

theorem single_title_path_witness:
  "example_console (banner ''Lindsay Lohan'') = None \<and>
   example_wiki ''Lindsay Lohan'' = Links [''Donald Trump''] \<and>
   fst (validate_path example_console example_wiki (PathFoundResult [''Lindsay Lohan'']) fresh) =
     Inr (PathFoundResult [''Lindsay Lohan'']) \<and>
   lookups (snd (validate_path example_console example_wiki
     (PathFoundResult [''Lindsay Lohan'']) fresh)) = [''Lindsay Lohan'']"
  using single_title_path
    [where out = example_console and wiki = example_wiki and X = "''Lindsay Lohan''"
      and ls = "[''Donald Trump'']" and ds = "[]" and st = fresh]
  by (simp add: run_validations_def example_wiki_simps example_console_banner fresh_def)

text \<open>
  C4 as the specification words it fails for a title that does not resolve: the one
  lookup is made and its \<open>PageError\<close> rejects the path.
\<close>

theorem single_unresolvable_title_rejected:
  "fst (validate_path example_console example_wiki
     (PathFoundResult [''Nonexistent Page'']) fresh) =
     Inl (ModelRetry ''Nonexistent Page does not match any pages. Try another query!'') \<and>
   lookups (snd (validate_path example_console example_wiki
     (PathFoundResult [''Nonexistent Page'']) fresh)) = [''Nonexistent Page'']"
  by (simp add: example_wiki_simps example_console_banner validate_path_def
      get_outbound_links_def fresh_def Let_def)


text \<open>
  C6. A validation of a candidate path runs the loop from the empty graph and decides by
  \<open>is_simple_path\<close> on the graph the loop hands over; its final state is the loop's. The
  external lookups it makes are lookups of titles of the path. When the loop completes, the
  graph has an edge from \<open>A\<close> to \<open>B\<close> exactly when \<open>A\<close> is a title of the path and
  \<open>B\<close> is among the links resolved for \<open>A\<close>; both ends of every edge are nodes; every
  title of the path is cached with the links the client gives; and the lookups made are
  the titles of the path that were not cached before, each once. So a title that is only
  a link target is a node of the graph without having been looked up.
\<close>

theorem graph_edges_from_path_members:
  "\<exists>r st1.
     build_graph out wiki P DiGraph (run_validations out wiki ds fresh) = (r, st1) \<and>
     validate_path out wiki (PathFoundResult P) (run_validations out wiki ds fresh) =
       ((case r of
           Inl e \<Rightarrow> Inl e
         | Inr g \<Rightarrow>
             if is_simple_path g P then Inr (PathFoundResult P)
             else Inl (ModelRetry ''Path is not valid'')), st1) \<and>
     (\<exists>new. lookups st1 = lookups (run_validations out wiki ds fresh) @ new \<and>
        set new \<subseteq> set P) \<and>
     (\<forall>g. r = Inr g \<longrightarrow>
        (\<forall>A B. B \<in> adj g A \<longleftrightarrow> A \<in> set P \<and> (\<exists>ls. wiki A = Links ls \<and> B \<in> set ls)) \<and>
        (\<forall>A B. B \<in> adj g A \<longrightarrow> A \<in> nodes g \<and> B \<in> nodes g) \<and>
        (\<forall>A\<in>set P. \<exists>ls. cache st1 A = Some ls \<and> wiki A = Links ls) \<and>
        (\<exists>new. lookups st1 = lookups (run_validations out wiki ds fresh) @ new \<and>
           distinct new \<and>
           set new = {t \<in> set P. cache (run_validations out wiki ds fresh) t = None}))"
proof -
  let ?H = "run_validations out wiki ds fresh"
  let ?f = "body_outcome out wiki"
  obtain r st1 where b: "build_graph out wiki P DiGraph ?H = (r, st1)"
    by (cases "build_graph out wiki P DiGraph ?H")
  then have s1: "st1 = snd (build_graph out wiki P DiGraph ?H)"
    and r1: "r = fst (build_graph out wiki P DiGraph ?H)"
    by simp_all
  have v: "validate_path out wiki (PathFoundResult P) ?H =
      ((case r of
          Inl e \<Rightarrow> Inl e
        | Inr g \<Rightarrow>
            if is_simple_path g P then Inr (PathFoundResult P)
            else Inl (ModelRetry ''Path is not valid'')), st1)"
    using b by (rule validate_path_build_graph)
  have up: "\<exists>new. lookups st1 = lookups ?H @ new \<and> set new \<subseteq> set P"
    unfolding s1 by (rule build_graph_lookups)
  have fin: "(\<forall>A B. B \<in> adj g A \<longleftrightarrow> A \<in> set P \<and> (\<exists>ls. wiki A = Links ls \<and> B \<in> set ls)) \<and>
      (\<forall>A B. B \<in> adj g A \<longrightarrow> A \<in> nodes g \<and> B \<in> nodes g) \<and>
      (\<forall>A\<in>set P. \<exists>ls. cache st1 A = Some ls \<and> wiki A = Links ls) \<and>
      (\<exists>new. lookups st1 = lookups ?H @ new \<and> distinct new \<and>
         set new = {t \<in> set P. cache ?H t = None})"
    if rg: "r = Inr g" for g
  proof -
    have c: "(case first_failure ?f P of Some e \<Rightarrow> Inl e
        | None \<Rightarrow> Inr (graph_of ?f P DiGraph)) = Inr g"
      using rg r1 unfolding build_graph_fst history_outcome by simp
    then have ff: "first_failure ?f P = None" by (cases "first_failure ?f P") simp_all
    then have g: "g = graph_of ?f P DiGraph" using c by simp
    have res: "\<forall>p\<in>set P. \<exists>ls. ?f p = Links ls" using ff by (simp add: first_failure_None)
    have edge: "B \<in> adj g A \<longleftrightarrow> A \<in> set P \<and> (\<exists>ls. wiki A = Links ls \<and> B \<in> set ls)" for A B
    proof (cases "A \<in> set P")
      case True
      then obtain ls where l: "?f A = Links ls" using res by blast
      then have "wiki A = Links ls" by (simp add: body_Links)
      then show ?thesis using True l unfolding g by (simp add: adj_graph_of_empty links_of_def)
    next
      case False
      then show ?thesis unfolding g by (simp add: adj_graph_of_empty)
    qed
    have node: "A \<in> nodes g \<and> B \<in> nodes g" if e: "B \<in> adj g A" for A B
    proof -
      have a: "A \<in> set P" using e edge by blast
      then obtain ls where l: "?f A = Links ls" using res by blast
      have "B \<in> set (links_of (?f A))" using e a unfolding g by (simp add: adj_graph_of_empty)
      then show ?thesis
        unfolding g
        using source_is_node [where f = ?f, OF a] target_is_node [where f = ?f, OF a]
        by blast
    qed
    have ff2: "first_failure (lookup_outcome out wiki ?H) P = None"
      using ff by (simp add: history_outcome)
    have ex: "(\<exists>new. lookups st1 = lookups ?H @ new \<and> distinct new \<and>
          set new = {t \<in> set P. cache ?H t = None}) \<and>
        (\<forall>t\<in>set P. \<exists>ls. cache st1 t = Some ls)"
      unfolding s1 using ff2 by (rule build_graph_lookups_exact)
    have sound1: "cache_sound out wiki st1"
      unfolding s1 by (rule build_graph_sound [OF history_sound])
    have cached: "\<exists>ls. cache st1 A = Some ls \<and> wiki A = Links ls" if a: "A \<in> set P" for A
    proof -
      obtain ls where l: "cache st1 A = Some ls" using ex a by blast
      then have "?f A = Links ls" using sound1 unfolding cache_sound_def by blast
      then have "wiki A = Links ls" by (simp add: body_Links)
      then show ?thesis using l by blast
    qed
    show ?thesis using edge node cached ex by blast
  qed
  show ?thesis using b v up fin by blast
qed

theorem graph_edges_from_path_members_witness:
  "\<exists>g st1.
     build_graph example_console example_wiki [''Lindsay Lohan'', ''Donald Trump''] DiGraph fresh =
       (Inr g, st1) \<and>
     validate_path example_console example_wiki
       (PathFoundResult [''Lindsay Lohan'', ''Donald Trump'']) fresh =
       (Inr (PathFoundResult [''Lindsay Lohan'', ''Donald Trump'']), st1) \<and>
     ''Barack Obama'' \<in> adj g ''Donald Trump'' \<and> ''Barack Obama'' \<in> nodes g \<and>
     ''Donald Trump'' \<notin> adj g ''Barack Obama'' \<and>
     cache st1 ''Donald Trump'' = Some [''Barack Obama''] \<and>
     set (lookups st1) = {''Lindsay Lohan'', ''Donald Trump''}"
proof -
  let ?P = "[''Lindsay Lohan'', ''Donald Trump'']"
  have h: "run_validations example_console example_wiki [] fresh = fresh"
    by (simp add: run_validations_def)
  from graph_edges_from_path_members
    [where out = example_console and wiki = example_wiki and P = ?P and ds = "[]"]
  obtain r st1 where b: "build_graph example_console example_wiki ?P DiGraph fresh = (r, st1)"
    and v: "validate_path example_console example_wiki (PathFoundResult ?P) fresh =
      ((case r of
          Inl e \<Rightarrow> Inl e
        | Inr g \<Rightarrow>
            if is_simple_path g ?P then Inr (PathFoundResult ?P)
            else Inl (ModelRetry ''Path is not valid'')), st1)"
    and fin: "\<forall>g. r = Inr g \<longrightarrow>
        (\<forall>A B. B \<in> adj g A \<longleftrightarrow>
           A \<in> set ?P \<and> (\<exists>ls. example_wiki A = Links ls \<and> B \<in> set ls)) \<and>
        (\<forall>A B. B \<in> adj g A \<longrightarrow> A \<in> nodes g \<and> B \<in> nodes g) \<and>
        (\<forall>A\<in>set ?P. \<exists>ls. cache st1 A = Some ls \<and> example_wiki A = Links ls) \<and>
        (\<exists>new. lookups st1 = lookups fresh @ new \<and> distinct new \<and>
           set new = {t \<in> set ?P. cache fresh t = None})"
    unfolding h by blast
  have "fst (build_graph example_console example_wiki ?P DiGraph fresh) =
      Inr (graph_of (lookup_outcome example_console example_wiki fresh) ?P DiGraph)"
    unfolding build_graph_fst
    by (simp add: lookup_outcome_def body_outcome_def fresh_def example_console_banner
        example_wiki_simps)
  then obtain g where g: "r = Inr g" using b by simp
  have e: "\<forall>A B. B \<in> adj g A \<longleftrightarrow>
        A \<in> set ?P \<and> (\<exists>ls. example_wiki A = Links ls \<and> B \<in> set ls)"
    and n: "\<forall>A B. B \<in> adj g A \<longrightarrow> A \<in> nodes g \<and> B \<in> nodes g"
    and c: "\<forall>A\<in>set ?P. \<exists>ls. cache st1 A = Some ls \<and> example_wiki A = Links ls"
    and l: "\<exists>new. lookups st1 = lookups fresh @ new \<and> distinct new \<and>
        set new = {t \<in> set ?P. cache fresh t = None}"
    using fin g by blast+
  have e1: "''Barack Obama'' \<in> adj g ''Donald Trump''"
    using e by (simp add: example_wiki_simps)
  have e2: "''Donald Trump'' \<notin> adj g ''Barack Obama''"
    using e by simp
  have e3: "''Barack Obama'' \<in> nodes g" using n e1 by blast
  have c1: "cache st1 ''Donald Trump'' = Some [''Barack Obama'']"
    using c by (simp add: example_wiki_simps)
  have l1: "set (lookups st1) = {''Lindsay Lohan'', ''Donald Trump''}"
    using l by (auto simp add: fresh_def)
  have "fst (validate_path example_console example_wiki (PathFoundResult ?P) fresh) =
      Inr (PathFoundResult ?P)"
    by (simp add: example_wiki_simps example_console_banner validate_path_def
        get_outbound_links_def fresh_def Let_def is_simple_path_def add_links_def add_edge_def
        DiGraph_def pairwise_list_def)
  then have v1: "validate_path example_console example_wiki (PathFoundResult ?P) fresh =
      (Inr (PathFoundResult ?P), st1)"
    using v by (simp add: prod_eq_iff)
  show ?thesis using b g v1 e1 e2 e3 c1 l1 by blast
qed

text \<open>
  C7, as the code has it. Over any sequence of validations of one process, the external
  client is asked at most once for a title that resolves: once a title is cached, a lookup
  returns the cached links and leaves the process state, the log of external lookups
  included, as it was, and no validation removes or changes a cache entry. A lookup that
  raises leaves the cache as it was; so a title that prints and on which the client
  raises \<open>PageError\<close> is never cached, and every lookup of it asks the client again.
\<close>

theorem resolved_title_asked_once:
  "(\<forall>t ls. wiki t = Links ls \<longrightarrow>
      count_list (lookups (run_validations out wiki ds fresh)) t \<le> 1) \<and>
   (\<forall>t ls st. cache st t = Some ls \<longrightarrow> get_outbound_links out wiki t st = (Inr ls, st)) \<and>
   (\<forall>t ls st d. cache st t = Some ls \<longrightarrow>
      cache (snd (validate_path out wiki d st)) t = Some ls) \<and>
   (\<forall>t st e. fst (get_outbound_links out wiki t st) = Inl e \<longrightarrow>
      cache (snd (get_outbound_links out wiki t st)) = cache st) \<and>
   (\<forall>t msg. out (banner t) = None \<and> wiki t = PageError msg \<longrightarrow>
      get_outbound_links out wiki t (run_validations out wiki ds fresh) =
        (Inl (ModelRetry msg),
         (run_validations out wiki ds fresh)
           \<lparr>lookups := lookups (run_validations out wiki ds fresh) @ [t]\<rparr>))"
proof (intro conjI allI impI)
  fix t ls assume w: "wiki t = Links ls"
  have lo: "logged_once out wiki (run_validations out wiki ds fresh)"
    by (rule run_validations_logged_once [OF fresh_logged_once])
  show "count_list (lookups (run_validations out wiki ds fresh)) t \<le> 1"
  proof (cases "out (banner t)")
    case None
    then have "body_outcome out wiki t = Links ls" using w by (simp add: body_Links)
    then have "count_list (lookups (run_validations out wiki ds fresh)) t =
        (if cache (run_validations out wiki ds fresh) t = None then 0 else 1)"
      using lo unfolding logged_once_def by blast
    then show ?thesis by simp
  next
    case (Some msg)
    then have "count_list (lookups (run_validations out wiki ds fresh)) t = 0"
      using lo unfolding logged_once_def by blast
    then show ?thesis by simp
  qed
next
  fix t ls and st :: process assume "cache st t = Some ls"
  then show "get_outbound_links out wiki t st = (Inr ls, st)"
    by (simp add: get_outbound_links_def)
next
  fix t ls d and st :: process assume "cache st t = Some ls"
  then show "cache (snd (validate_path out wiki d st)) t = Some ls"
    by (rule validate_path_cache_mono)
next
  fix t e and st :: process
  assume "fst (get_outbound_links out wiki t st) = Inl e"
  then show "cache (snd (get_outbound_links out wiki t st)) = cache st"
    by (auto simp add: get_outbound_links_def Let_def split: option.splits page_outcome.splits)
next
  fix t msg
  assume a: "out (banner t) = None \<and> wiki t = PageError msg"
  then have "body_outcome out wiki t = PageError msg" by (simp add: body_PageError)
  then have "cache (run_validations out wiki ds fresh) t = None"
    using history_sound [of out wiki ds] unfolding cache_sound_def
    by (cases "cache (run_validations out wiki ds fresh) t") auto
  then show "get_outbound_links out wiki t (run_validations out wiki ds fresh) =
      (Inl (ModelRetry msg),
       (run_validations out wiki ds fresh)
         \<lparr>lookups := lookups (run_validations out wiki ds fresh) @ [t]\<rparr>)"
    using a by (simp add: get_outbound_links_def)
qed

theorem resolved_title_asked_once_witness:
  "example_wiki ''A'' = Links [''B'', ''Red Link''] \<and>
   count_list (lookups (run_validations example_console example_wiki
     [PathFoundResult [''A'', ''B''], PathFoundResult [''B'', ''A'']] fresh)) ''A'' \<le> 1 \<and>
   get_outbound_links example_console example_wiki ''Red Link'' fresh =
     (Inl (ModelRetry ''Red Link does not match any pages. Try another query!''),
      fresh\<lparr>lookups := lookups fresh @ [''Red Link'']\<rparr>)"
proof -
  have h: "example_wiki ''A'' = Links [''B'', ''Red Link'']" by (simp add: example_wiki_simps)
  from resolved_title_asked_once [of example_wiki example_console
      "[PathFoundResult [''A'', ''B''], PathFoundResult [''B'', ''A'']]"] h
  have c: "count_list (lookups (run_validations example_console example_wiki
     [PathFoundResult [''A'', ''B''], PathFoundResult [''B'', ''A'']] fresh)) ''A'' \<le> 1"
    by blast
  have p: "example_console (banner ''Red Link'') = None \<and>
      example_wiki ''Red Link'' = PageError ''Red Link does not match any pages. Try another query!''"
    by (simp add: example_console_banner example_wiki_simps)
  from resolved_title_asked_once [of example_wiki example_console "[]"] p
  have "get_outbound_links example_console example_wiki ''Red Link''
      (run_validations example_console example_wiki [] fresh) =
      (Inl (ModelRetry ''Red Link does not match any pages. Try another query!''),
       (run_validations example_console example_wiki [] fresh)
         \<lparr>lookups := lookups (run_validations example_console example_wiki [] fresh) @
            [''Red Link'']\<rparr>)"
    by blast
  then show ?thesis using h c by (simp add: run_validations_def)
qed

text \<open>
  C7 as the specification words it fails for a title that does not resolve: a lookup that
  raises stores nothing, so two validations of the same unresolvable title ask the
  external client twice.
\<close>

theorem unresolvable_title_asked_twice:
  "count_list (lookups (run_validations example_console example_wiki
     [PathFoundResult [''Nonexistent Page''], PathFoundResult [''Nonexistent Page'']] fresh))
     ''Nonexistent Page'' = 2"
  by (simp add: run_validations_def example_wiki_simps example_console_banner
      validate_path_def get_outbound_links_def fresh_def Let_def)

text \<open>
  C9. The code at a path with a title on which the external client raises an exception
  other than \<open>PageError\<close>: no handler catches it, and the validator ends with it,
  neither accepting the path nor raising \<open>ModelRetry\<close>.
\<close>

theorem uncaught_exception_escapes:
  "fst (validate_path example_console example_wiki
     (PathFoundResult [''Lindsay Lohan'', ''Mercury'']) fresh) =
     Inl (Uncaught ''Mercury may refer to: Mercury (planet), Mercury (element)'')"
  by (simp add: example_wiki_simps example_console_banner validate_path_def
      get_outbound_links_def fresh_def Let_def)

end
